theory Spec2Isabelle
  imports Main "HOL-Library.Sublist"
begin

section \<open>Python values\<close>

text \<open>
  The chunks handed to \<open>_chunk_to_dict\<close> are dynamically typed (\<open>chunk: Any\<close>), so the model
  carries a universe of Python values: \<open>None\<close>, booleans, integers, floats, strings, lists,
  tuples, dictionaries (association lists, in insertion order) and plain objects (a list of
  instance attributes; the class defines no special method and no property).

  A Python \<open>str\<close> is a sequence of code points; here it is a \<open>string\<close>, one \<open>char\<close> standing for
  one code point, so \<open>length\<close> counts what \<open>len\<close> counts.

  Floating-point numbers are kept abstract: the type \<open>'f\<close> of floats and the built-ins that
  compute with them are parameters of the model (record \<open>prims\<close>).
\<close>

datatype 'f pyval =
    PNone
  | PBool bool
  | PInt int
  | PFloat 'f
  | PStr string
  | PList "'f pyval list"
  | PTuple "'f pyval list"
  | PDict "('f pyval \<times> 'f pyval) list"
  | PObj "(string \<times> 'f pyval) list"

text \<open>
  What the source can raise inside \<open>_chunk_to_dict\<close>, by the operation that raises:
  \<open>float(x)\<close> (TypeError, ValueError or OverflowError), \<open>list(x)\<close> (TypeError) and the
  subscript \<open>x[:500]\<close> (TypeError; KeyError for a dictionary on recent interpreters).
\<close>

datatype error = FloatError | IterError | SliceError

text \<open>
  The built-ins of the interpreter that the model does not compute:
  \<^item> \<open>float_of_int n\<close> is \<open>float(n)\<close> for an integer, \<open>None\<close> when it overflows;
  \<^item> \<open>float_of_str s\<close> is \<open>float(s)\<close> for a string, \<open>None\<close> when \<open>s\<close> is no number;
  \<^item> \<open>float_nonzero f\<close> is the truth value of a float;
  \<^item> \<open>round2 f\<close> is \<open>round(f, 2)\<close>;
  \<^item> \<open>str_other v\<close> is \<open>str(v)\<close> for a value \<open>v\<close> that is not a string.
\<close>

record 'f prims =
  float_of_int :: "int \<Rightarrow> 'f option"
  float_of_str :: "string \<Rightarrow> 'f option"
  float_nonzero :: "'f \<Rightarrow> bool"
  round2 :: "'f \<Rightarrow> 'f"
  str_other :: "'f pyval \<Rightarrow> string"

text \<open>Truth value testing, as \<open>or\<close>, \<open>if x\<close> and \<open>not x\<close> apply it.\<close>

fun py_truthy :: "'f prims \<Rightarrow> 'f pyval \<Rightarrow> bool" where
  "py_truthy P PNone = False"
| "py_truthy P (PBool b) = b"
| "py_truthy P (PInt n) = (n \<noteq> 0)"
| "py_truthy P (PFloat f) = float_nonzero P f"
| "py_truthy P (PStr s) = (s \<noteq> [])"
| "py_truthy P (PList xs) = (xs \<noteq> [])"
| "py_truthy P (PTuple xs) = (xs \<noteq> [])"
| "py_truthy P (PDict kvs) = (kvs \<noteq> [])"
| "py_truthy P (PObj attrs) = True"

text \<open>\<open>a or b\<close>: the first operand if it is true, the second otherwise.\<close>

definition py_or :: "'f prims \<Rightarrow> 'f pyval \<Rightarrow> 'f pyval \<Rightarrow> 'f pyval" where
  "py_or P a b = (if py_truthy P a then a else b)"

text \<open>\<open>d.get(k)\<close> for a string key: \<open>None\<close> when the key is missing.\<close>

definition dict_get :: "('f pyval \<times> 'f pyval) list \<Rightarrow> string \<Rightarrow> 'f pyval" where
  "dict_get kvs k = (case map_of kvs (PStr k) of None \<Rightarrow> PNone | Some v \<Rightarrow> v)"

text \<open>\<open>str(v)\<close>.\<close>

definition py_str :: "'f prims \<Rightarrow> 'f pyval \<Rightarrow> string" where
  "py_str P v = (case v of PStr s \<Rightarrow> s | _ \<Rightarrow> str_other P v)"

text \<open>
  \<open>float(x)\<close>: a boolean is an integer; \<open>None\<close>, the containers and a plain object have no
  conversion.
\<close>

fun py_float :: "'f prims \<Rightarrow> 'f pyval \<Rightarrow> error + 'f" where
  "py_float P (PBool b) =
     (case float_of_int P (if b then 1 else 0) of None \<Rightarrow> Inl FloatError | Some f \<Rightarrow> Inr f)"
| "py_float P (PInt n) =
     (case float_of_int P n of None \<Rightarrow> Inl FloatError | Some f \<Rightarrow> Inr f)"
| "py_float P (PFloat f) = Inr f"
| "py_float P (PStr s) =
     (case float_of_str P s of None \<Rightarrow> Inl FloatError | Some f \<Rightarrow> Inr f)"
| "py_float P v = Inl FloatError"

text \<open>\<open>isinstance(v, list)\<close> and \<open>hasattr(v, "__iter__")\<close>.\<close>

fun is_list :: "'f pyval \<Rightarrow> bool" where
  "is_list (PList xs) = True"
| "is_list v = False"

fun has_iter :: "'f pyval \<Rightarrow> bool" where
  "has_iter (PStr s) = True"
| "has_iter (PList xs) = True"
| "has_iter (PTuple xs) = True"
| "has_iter (PDict kvs) = True"
| "has_iter (PObj attrs) = (map_of attrs ''__iter__'' \<noteq> None)"
| "has_iter v = False"

text \<open>
  \<open>list(v)\<close>: the elements of a list or tuple, the characters of a string, the keys of a
  dictionary. An object is not iterable, also when it has an instance attribute called
  \<open>__iter__\<close>: the interpreter looks the method up on the class.
\<close>

fun py_list :: "'f pyval \<Rightarrow> error + 'f pyval list" where
  "py_list (PList xs) = Inr xs"
| "py_list (PTuple xs) = Inr xs"
| "py_list (PStr s) = Inr (map (\<lambda>c. PStr [c]) s)"
| "py_list (PDict kvs) = Inr (map fst kvs)"
| "py_list v = Inl IterError"

text \<open>\<open>v[:n]\<close>.\<close>

fun py_slice :: "nat \<Rightarrow> 'f pyval \<Rightarrow> error + 'f pyval" where
  "py_slice n (PStr s) = Inr (PStr (take n s))"
| "py_slice n (PList xs) = Inr (PList (take n xs))"
| "py_slice n (PTuple xs) = Inr (PTuple (take n xs))"
| "py_slice n v = Inl SliceError"

section \<open>The chunk normalizer: \<open>_chunk_to_dict\<close>\<close>

text \<open>The dictionary \<open>{"page": .., "type": .., "bbox": .., "text": ..}\<close> that is returned.\<close>

record 'f chunk =
  c_page :: int
  c_type :: "'f pyval"
  c_bbox :: "'f pyval"
  c_text :: "'f pyval"

text \<open>
  The three \<open>for attr in (...)\<close> loops: the value of the first attribute of the list that
  the object has and that is not \<open>None\<close>.
\<close>

fun first_attr :: "(string \<times> 'f pyval) list \<Rightarrow> string list \<Rightarrow> 'f pyval option" where
  "first_attr attrs [] = None"
| "first_attr attrs (a # rest) =
     (case map_of attrs a of
        None \<Rightarrow> first_attr attrs rest
      | Some val \<Rightarrow> if val \<noteq> PNone then Some val else first_attr attrs rest)"

text \<open>
  The instance attributes of a chunk that is not a dictionary. A value of a built-in type
  has none of the attributes the loops ask for.
\<close>

fun attrs_of :: "'f pyval \<Rightarrow> (string \<times> 'f pyval) list" where
  "attrs_of (PObj attrs) = attrs"
| "attrs_of v = []"

text \<open>\<open>list(v) if hasattr(v, "__iter__") else None\<close> (lines 71 and 80).\<close>

definition list_or_none :: "'f pyval \<Rightarrow> error + 'f pyval" where
  "list_or_none v =
     (if has_iter v then (case py_list v of Inl e \<Rightarrow> Inl e | Inr xs \<Rightarrow> Inr (PList xs))
      else Inr PNone)"

text \<open>
  Lines 53 to 78: the values of \<open>bbox\<close>, \<open>text\<close> and \<open>kind\<close> after the shape dispatch.
  In the dictionary branch nothing is coerced and \<open>or\<close> skips every false value; in the
  attribute branch the first value that is not \<open>None\<close> is taken and coerced.
\<close>

definition resolve_fields ::
  "'f prims \<Rightarrow> 'f pyval \<Rightarrow> error + ('f pyval \<times> 'f pyval \<times> 'f pyval)" where
  "resolve_fields P chunk =
     (case chunk of
        PDict kvs \<Rightarrow>
          Inr (py_or P (dict_get kvs ''bbox'') (dict_get kvs ''box''),
               py_or P (py_or P (py_or P (dict_get kvs ''text'') (dict_get kvs ''content''))
                               (dict_get kvs ''markdown''))
                       (PStr ''''),
               py_or P (py_or P (dict_get kvs ''type'') (dict_get kvs ''category''))
                       (PStr ''unknown''))
      | _ \<Rightarrow>
          (let text = (case first_attr (attrs_of chunk) [''text'', ''content'', ''markdown''] of
                         None \<Rightarrow> PStr ''''
                       | Some val \<Rightarrow> PStr (py_str P val));
               kind = (case first_attr (attrs_of chunk) [''type'', ''category'', ''kind''] of
                         None \<Rightarrow> PStr ''unknown''
                       | Some val \<Rightarrow> PStr (py_str P val))
           in case first_attr (attrs_of chunk) [''bbox'', ''box'', ''bounding_box''] of
                None \<Rightarrow> Inr (PNone, text, kind)
              | Some val \<Rightarrow>
                  (case (if is_list val then Inr val else list_or_none val) of
                     Inl e \<Rightarrow> Inl e
                   | Inr bbox \<Rightarrow> Inr (bbox, text, kind))))"

text \<open>Lines 79 and 80.\<close>

definition as_list :: "'f pyval \<Rightarrow> error + 'f pyval" where
  "as_list bbox = (if bbox \<noteq> PNone \<and> \<not> is_list bbox then list_or_none bbox else Inr bbox)"

text \<open>
  The comprehension \<open>[round(float(x), 2) for x in xs]\<close> of line 82: the elements are coerced
  from left to right and the first failure ends it.
\<close>

fun round_floats :: "'f prims \<Rightarrow> 'f pyval list \<Rightarrow> error + 'f pyval list" where
  "round_floats P [] = Inr []"
| "round_floats P (x # xs) =
     (case py_float P x of
        Inl e \<Rightarrow> Inl e
      | Inr f \<Rightarrow>
          (case round_floats P xs of
             Inl e \<Rightarrow> Inl e
           | Inr fs \<Rightarrow> Inr (PFloat (round2 P f) # fs)))"

text \<open>
  Lines 81 and 82. Here \<open>bbox\<close> is \<open>None\<close> or a list (lemma \<open>as_list_shape\<close>), so
  \<open>bbox and len(bbox) >= 4\<close> asks for a list of at least four elements; every other value
  is left as it is.
\<close>

definition round_bbox :: "'f prims \<Rightarrow> 'f pyval \<Rightarrow> error + 'f pyval" where
  "round_bbox P bbox =
     (case bbox of
        PList xs \<Rightarrow>
          if xs \<noteq> [] \<and> 4 \<le> length xs
          then (case round_floats P (take 4 xs) of Inl e \<Rightarrow> Inl e | Inr fs \<Rightarrow> Inr (PList fs))
          else Inr bbox
      | _ \<Rightarrow> Inr bbox)"

definition chunk_to_dict :: "'f prims \<Rightarrow> 'f pyval \<Rightarrow> int \<Rightarrow> error + 'f chunk" where
  "chunk_to_dict P chunk page_num =
     (case resolve_fields P chunk of
        Inl e \<Rightarrow> Inl e
      | Inr (bbox0, text, kind) \<Rightarrow>
          (case as_list bbox0 of
             Inl e \<Rightarrow> Inl e
           | Inr bbox1 \<Rightarrow>
               (case round_bbox P bbox1 of
                  Inl e \<Rightarrow> Inl e
                | Inr bbox \<Rightarrow>
                    (case py_slice 500 (py_or P text (PStr '''')) of
                       Inl e \<Rightarrow> Inl e
                     | Inr t \<Rightarrow>
                         Inr \<lparr>c_page = page_num, c_type = kind, c_bbox = bbox, c_text = t\<rparr>))))"

section \<open>The aggregator: \<open>_run_ocr\<close>\<close>

text \<open>
  Modelled from the spec: the class of the inference engine's per-page results (an import
  from \<open>chandra.model\<close>) is not part of the repository. The spec's PageResult has the
  attributes \<open>markdown\<close>, \<open>html\<close>, \<open>token_count\<close>, \<open>chunks\<close>, \<open>images\<close> and \<open>error\<close>, the texts
  possibly null and the others optional; \<open>None\<close> is the absent or null attribute.
\<close>

record ('f, 'img) page_result =
  pr_markdown :: "string option"
  pr_html :: "string option"
  pr_token_count :: "int option"
  pr_chunks :: "'f pyval list option"
  pr_images :: "'img list option"
  pr_error :: "string option"

text \<open>One entry of \<open>pages_meta\<close>; \<open>pm_error = None\<close> is the dictionary without the key.\<close>

record page_meta =
  pm_page_num :: int
  pm_token_count :: "int option"
  pm_num_chunks :: int
  pm_num_images :: int
  pm_error :: "string option"

text \<open>
  The dictionary \<open>_run_ocr\<close> returns. Its two return statements do not have the same keys:
  a key that is not in the dictionary is \<open>None\<close> here.
\<close>

record 'f document =
  doc_markdown :: string
  doc_html :: string
  doc_structure :: "'f chunk list"
  doc_pages :: "page_meta list"
  doc_num_pages :: int
  doc_total_token_count :: "int option"
  doc_error :: "string option"

text \<open>The five accumulators of lines 111 to 115.\<close>

record 'f acc =
  all_markdown :: "string list"
  all_html :: "string list"
  pages_meta :: "page_meta list"
  structure_acc :: "'f chunk list"
  total_tokens :: int

text \<open>\<open>sep.join(xs)\<close>.\<close>

fun join :: "string \<Rightarrow> string list \<Rightarrow> string" where
  "join sep [] = []"
| "join sep [x] = x"
| "join sep (x # y # ys) = x @ sep @ join sep (y # ys)"

text \<open>The truth value of an optional sequence or text: absent, null and empty are false.\<close>

fun nonempty :: "'a list option \<Rightarrow> bool" where
  "nonempty None = False"
| "nonempty (Some xs) = (xs \<noteq> [])"

text \<open>\<open>x or ""\<close> for an optional text and \<open>x or 0\<close> for an optional integer.\<close>

fun or_empty :: "string option \<Rightarrow> string" where
  "or_empty None = ''''"
| "or_empty (Some s) = (if s \<noteq> [] then s else '''')"

fun or_zero :: "int option \<Rightarrow> int" where
  "or_zero None = 0"
| "or_zero (Some n) = (if n \<noteq> 0 then n else 0)"

text \<open>\<open>len(x) if x else 0\<close>.\<close>

fun len_or_zero :: "'a list option \<Rightarrow> int" where
  "len_or_zero None = 0"
| "len_or_zero (Some xs) = (if xs \<noteq> [] then int (length xs) else 0)"

text \<open>Lines 130 and 131: the inner loop; an exception of the normalizer ends it.\<close>

fun append_chunks ::
  "'f prims \<Rightarrow> int \<Rightarrow> 'f pyval list \<Rightarrow> 'f chunk list \<Rightarrow> error + 'f chunk list" where
  "append_chunks P page_num [] st = Inr st"
| "append_chunks P page_num (ch # chs) st =
     (case chunk_to_dict P ch page_num of
        Inl e \<Rightarrow> Inl e
      | Inr c \<Rightarrow> append_chunks P page_num chs (st @ [c]))"

text \<open>Lines 121 to 128: the entry of \<open>pages_meta\<close> for the result at index \<open>page_num\<close>.\<close>

definition page_meta_of :: "nat \<Rightarrow> ('f, 'img) page_result \<Rightarrow> page_meta" where
  "page_meta_of page_num result =
     \<lparr>pm_page_num = int page_num + 1,
      pm_token_count = pr_token_count result,
      pm_num_chunks = len_or_zero (pr_chunks result),
      pm_num_images = len_or_zero (pr_images result),
      pm_error = (if nonempty (pr_error result) then pr_error result else None)\<rparr>"

text \<open>Lines 118 to 131: the body of the loop, for the result at index \<open>page_num\<close>.\<close>

definition page_step ::
  "'f prims \<Rightarrow> nat \<Rightarrow> ('f, 'img) page_result \<Rightarrow> 'f acc \<Rightarrow> error + 'f acc" where
  "page_step P page_num result s =
     (let s1 = s\<lparr>all_markdown := all_markdown s @ [or_empty (pr_markdown result)],
                 all_html := all_html s @ [or_empty (pr_html result)],
                 total_tokens := total_tokens s + or_zero (pr_token_count result),
                 pages_meta := pages_meta s @ [page_meta_of page_num result]\<rparr>
      in if nonempty (pr_chunks result)
         then (case pr_chunks result of
                 None \<Rightarrow> Inr s1
               | Some chs \<Rightarrow>
                   (case append_chunks P (int page_num + 1) chs (structure_acc s1) of
                      Inl e \<Rightarrow> Inl e
                    | Inr st \<Rightarrow> Inr (s1\<lparr>structure_acc := st\<rparr>)))
         else Inr s1)"

text \<open>Line 117: \<open>for page_num, result in enumerate(results)\<close>, from index \<open>page_num\<close> on.\<close>

fun ocr_loop ::
  "'f prims \<Rightarrow> nat \<Rightarrow> ('f, 'img) page_result list \<Rightarrow> 'f acc \<Rightarrow> error + 'f acc" where
  "ocr_loop P page_num [] s = Inr s"
| "ocr_loop P page_num (result # results) s =
     (case page_step P page_num result s of
        Inl e \<Rightarrow> Inl e
      | Inr s' \<Rightarrow> ocr_loop P (Suc page_num) results s')"

text \<open>Lines 111 to 140: what \<open>_run_ocr\<close> does with the results of the inference engine.\<close>

definition aggregate :: "'f prims \<Rightarrow> ('f, 'img) page_result list \<Rightarrow> error + 'f document" where
  "aggregate P results =
     (case ocr_loop P 0 results
             \<lparr>all_markdown = [], all_html = [], pages_meta = [], structure_acc = [],
              total_tokens = 0\<rparr> of
        Inl e \<Rightarrow> Inl e
      | Inr s \<Rightarrow>
          Inr \<lparr>doc_markdown = join [CHR 0x0A, CHR 0x0A] (all_markdown s),
               doc_html = join [CHR 0x0A, CHR 0x0A] (all_html s),
               doc_structure = structure_acc s,
               doc_pages = pages_meta s,
               doc_num_pages = int (length results),
               doc_total_token_count = Some (total_tokens s),
               doc_error = None\<rparr>)"

text \<open>The items of the batch (line 103).\<close>

datatype 'img batch_input_item = BatchInputItem (image: 'img) (prompt_type: string)

text \<open>
  \<open>_run_ocr\<close>. The page loader and the inference engine are imports from outside the
  repository and are parameters here: \<open>load_file path config\<close> is the list of page images
  and \<open>generate batch\<close> stands for \<open>get_manager().generate(batch, include_images=True,
  include_headers_footers=False)\<close>.
\<close>

definition run_ocr ::
  "'f prims \<Rightarrow> (string \<Rightarrow> (string \<times> string) list \<Rightarrow> 'img list) \<Rightarrow>
   ('img batch_input_item list \<Rightarrow> ('f, 'img) page_result list) \<Rightarrow>
   string \<Rightarrow> string option \<Rightarrow> error + 'f document" where
  "run_ocr P load_file generate file_path page_range =
     (let config = (if nonempty page_range
                    then (case page_range of None \<Rightarrow> [] | Some r \<Rightarrow> [(''page_range'', r)])
                    else []);
          images = load_file file_path config
      in if images = []
         then Inr \<lparr>doc_markdown = '''', doc_html = '''', doc_structure = [], doc_pages = [],
                   doc_num_pages = 0, doc_total_token_count = None,
                   doc_error = Some ''No pages could be loaded from the file''\<rparr>
         else aggregate P (generate (map (\<lambda>img. BatchInputItem img ''ocr_layout'') images)))"

section \<open>Auxiliary definitions for the statements\<close>

text \<open>The chunks of a page result, none when the attribute is absent.\<close>

definition chunks_of :: "('f, 'img) page_result \<Rightarrow> 'f pyval list" where
  "chunks_of result = (case pr_chunks result of None \<Rightarrow> [] | Some chs \<Rightarrow> chs)"

text \<open>
  The normalizer applied to the chunks of one page, and to every page from index \<open>i\<close> on
  (one list of chunks per page), ending at the first chunk on which it raises.
\<close>

fun normalize_all :: "'f prims \<Rightarrow> int \<Rightarrow> 'f pyval list \<Rightarrow> error + 'f chunk list" where
  "normalize_all P n [] = Inr []"
| "normalize_all P n (ch # chs) =
     (case chunk_to_dict P ch n of
        Inl e \<Rightarrow> Inl e
      | Inr c \<Rightarrow> (case normalize_all P n chs of Inl e \<Rightarrow> Inl e | Inr cs \<Rightarrow> Inr (c # cs)))"

fun normalize_pages ::
  "'f prims \<Rightarrow> nat \<Rightarrow> ('f, 'img) page_result list \<Rightarrow> error + 'f chunk list list" where
  "normalize_pages P i [] = Inr []"
| "normalize_pages P i (r # rs) =
     (case normalize_all P (int i + 1) (chunks_of r) of
        Inl e \<Rightarrow> Inl e
      | Inr cs \<Rightarrow>
          (case normalize_pages P (Suc i) rs of Inl e \<Rightarrow> Inl e | Inr css \<Rightarrow> Inr (cs # css)))"

text \<open>
  An instance of the parameters, used to evaluate the model on concrete inputs: a float is
  an integer number of thousandths, \<open>round2\<close> rounds to a multiple of ten thousandths (half
  to even). \<open>float_of_str\<close> rejects every string and \<open>str_other\<close> is a placeholder: the only
  string coerced to a float in the evaluations below is \<open>"x"\<close>, which is no number, and none
  of them prints a value that is not a string.
\<close>

definition milli_prims :: "int prims" where
  "milli_prims =
     \<lparr>float_of_int = (\<lambda>n. Some (1000 * n)),
      float_of_str = (\<lambda>s. None),
      float_nonzero = (\<lambda>f. f \<noteq> 0),
      round2 = (\<lambda>f. if f mod 10 < 5 then f - f mod 10
                     else if 5 < f mod 10 then f - f mod 10 + 10
                     else if even (f div 10) then f - 5 else f + 5),
      str_other = (\<lambda>v. ''?'')\<rparr>"

text \<open>
  Three page results for the evaluations: the second carries an error and nothing else,
  the first and third carry text and chunks in both shapes.
\<close>

definition sample_pages :: "(int, unit) page_result list" where
  "sample_pages =
     [\<lparr>pr_markdown = Some ''one'', pr_html = Some ''<p>one</p>'', pr_token_count = Some 5,
       pr_chunks = Some [PDict [(PStr ''type'', PStr ''p''), (PStr ''text'', PStr ''one''),
                                (PStr ''bbox'', PList [PInt 1, PInt 2, PInt 3, PInt 4])],
                         PObj [(''kind'', PStr ''table'')]],
       pr_images = None, pr_error = None\<rparr>,
      \<lparr>pr_markdown = None, pr_html = None, pr_token_count = None, pr_chunks = None,
       pr_images = None, pr_error = Some ''timeout''\<rparr>,
      \<lparr>pr_markdown = Some ''three'', pr_html = Some ''<p>three</p>'', pr_token_count = Some 7,
       pr_chunks = Some [PDict [(PStr ''content'', PStr ''three'')]],
       pr_images = Some [()], pr_error = None\<rparr>]"

text \<open>
  The rule the mapping branch follows for one field: the first candidate value that is true
  (Python truth value), the default when there is none.
\<close>

definition first_truthy :: "'f prims \<Rightarrow> 'f pyval list \<Rightarrow> 'f pyval \<Rightarrow> 'f pyval" where
  "first_truthy P vs d = (case find (py_truthy P) vs of None \<Rightarrow> d | Some v \<Rightarrow> v)"

text \<open>
  The rule in the spec's words, for comparison: the first candidate that is present with a
  non-null value (\<open>dict_get\<close> gives \<open>None\<close> for a missing key), the default when there is none.
\<close>

definition spec_first_non_null :: "'f pyval list \<Rightarrow> 'f pyval \<Rightarrow> 'f pyval" where
  "spec_first_non_null vs d = (case find (\<lambda>v. v \<noteq> PNone) vs of None \<Rightarrow> d | Some v \<Rightarrow> v)"

text \<open>
  The same named fields carried in the two shapes: as the keys of a dictionary and as the
  attributes of an object.
\<close>

definition mapping_chunk :: "(string \<times> 'f pyval) list \<Rightarrow> 'f pyval" where
  "mapping_chunk flds = PDict (map (\<lambda>(k, v). (PStr k, v)) flds)"

definition object_chunk :: "(string \<times> 'f pyval) list \<Rightarrow> 'f pyval" where
  "object_chunk flds = PObj flds"

text \<open>
  Three conditions on the value of a field: missing or \<open>None\<close>; missing, \<open>None\<close> or a
  non-empty string; missing, \<open>None\<close> or a true value.
\<close>

fun absent :: "'f pyval option \<Rightarrow> bool" where
  "absent None = True"
| "absent (Some PNone) = True"
| "absent (Some v) = False"

fun absent_or_text :: "'f pyval option \<Rightarrow> bool" where
  "absent_or_text None = True"
| "absent_or_text (Some PNone) = True"
| "absent_or_text (Some (PStr s)) = (s \<noteq> [])"
| "absent_or_text (Some v) = False"

fun absent_or_truthy :: "'f prims \<Rightarrow> 'f pyval option \<Rightarrow> bool" where
  "absent_or_truthy P None = True"
| "absent_or_truthy P (Some PNone) = True"
| "absent_or_truthy P (Some v) = py_truthy P v"

section \<open>The loop in closed form\<close>

lemma append_chunks_eq:
  "append_chunks P n chs st =
     (case normalize_all P n chs of Inl e \<Rightarrow> Inl e | Inr cs \<Rightarrow> Inr (st @ cs))"
  by (induction chs arbitrary: st) (auto split: sum.splits)

lemma page_step_eq:
  "page_step P i r s =
     (case normalize_all P (int i + 1) (chunks_of r) of
        Inl e \<Rightarrow> Inl e
      | Inr cs \<Rightarrow>
          Inr \<lparr>all_markdown = all_markdown s @ [or_empty (pr_markdown r)],
               all_html = all_html s @ [or_empty (pr_html r)],
               pages_meta = pages_meta s @ [page_meta_of i r],
               structure_acc = structure_acc s @ cs,
               total_tokens = total_tokens s + or_zero (pr_token_count r)\<rparr>)"
  by (cases "pr_chunks r")
     (auto simp: page_step_def chunks_of_def append_chunks_eq Let_def split: sum.splits)

lemma ocr_loop_eq:
  "ocr_loop P i rs s =
     (case normalize_pages P i rs of
        Inl e \<Rightarrow> Inl e
      | Inr css \<Rightarrow>
          Inr \<lparr>all_markdown = all_markdown s @ map (\<lambda>r. or_empty (pr_markdown r)) rs,
               all_html = all_html s @ map (\<lambda>r. or_empty (pr_html r)) rs,
               pages_meta =
                 pages_meta s @ map (\<lambda>(j, r). page_meta_of j r) (zip [i..<i + length rs] rs),
               structure_acc = structure_acc s @ concat css,
               total_tokens =
                 total_tokens s + sum_list (map (\<lambda>r. or_zero (pr_token_count r)) rs)\<rparr>)"
proof (induction rs arbitrary: i s)
  case Nil
  show ?case by simp
next
  case (Cons r rs)
  have up: "[i..<i + length (r # rs)] = i # [Suc i..<Suc i + length rs]"
    by (simp del: upt_Suc add: upt_conv_Cons)
  show ?case
    unfolding up by (simp del: upt_Suc add: page_step_eq Cons.IH split: sum.splits)
qed

lemma aggregate_eq:
  "aggregate P rs =
     (case normalize_pages P 0 rs of
        Inl e \<Rightarrow> Inl e
      | Inr css \<Rightarrow>
          Inr \<lparr>doc_markdown = join [CHR 0x0A, CHR 0x0A] (map (\<lambda>r. or_empty (pr_markdown r)) rs),
               doc_html = join [CHR 0x0A, CHR 0x0A] (map (\<lambda>r. or_empty (pr_html r)) rs),
               doc_structure = concat css,
               doc_pages = map (\<lambda>(j, r). page_meta_of j r) (zip [0..<length rs] rs),
               doc_num_pages = int (length rs),
               doc_total_token_count =
                 Some (sum_list (map (\<lambda>r. or_zero (pr_token_count r)) rs)),
               doc_error = None\<rparr>)"
  by (simp add: aggregate_def ocr_loop_eq split: sum.splits)

section \<open>Properties of the loop\<close>

lemma chunk_to_dict_page: "chunk_to_dict P ch n = Inr c \<Longrightarrow> c_page c = n"
  by (auto simp: chunk_to_dict_def split: sum.splits prod.splits)

lemma normalize_all_Inr:
  "normalize_all P n chs = Inr cs \<longleftrightarrow> list_all2 (\<lambda>ch c. chunk_to_dict P ch n = Inr c) chs cs"
proof (induction chs arbitrary: cs)
  case Nil
  show ?case by auto
next
  case (Cons ch chs)
  show ?case
    by (cases cs) (auto simp: Cons.IH [symmetric] split: sum.splits)
qed

lemma normalize_all_Inl:
  "normalize_all P n chs = Inl e \<Longrightarrow> \<exists>ch \<in> set chs. chunk_to_dict P ch n = Inl e"
  by (induction chs) (auto split: sum.splits)

lemma normalize_all_total:
  "(\<forall>ch \<in> set chs. \<exists>c. chunk_to_dict P ch n = Inr c) \<Longrightarrow> \<exists>cs. normalize_all P n chs = Inr cs"
  by (induction chs) (auto split: sum.splits)

lemma normalize_pages_Inr:
  "normalize_pages P i rs = Inr css \<Longrightarrow>
     length css = length rs \<and>
     (\<forall>j < length rs. normalize_all P (int (i + j) + 1) (chunks_of (rs ! j)) = Inr (css ! j))"
proof (induction rs arbitrary: i css)
  case Nil
  then show ?case by simp
next
  case (Cons r rs)
  from Cons.prems obtain cs css' where
    a: "normalize_all P (int i + 1) (chunks_of r) = Inr cs" and
    b: "normalize_pages P (Suc i) rs = Inr css'" and c: "css = cs # css'"
    by (auto split: sum.splits)
  from Cons.IH [OF b] have len: "length css' = length rs" and
    ih: "\<And>j. j < length rs \<Longrightarrow>
           normalize_all P (int (Suc i + j) + 1) (chunks_of (rs ! j)) = Inr (css' ! j)"
    by auto
  show ?case
  proof (intro conjI allI impI)
    show "length css = length (r # rs)" using len c by simp
  next
    fix j assume "j < length (r # rs)"
    then show "normalize_all P (int (i + j) + 1) (chunks_of ((r # rs) ! j)) = Inr (css ! j)"
      using a c ih [of "j - 1"] by (cases j) auto
  qed
qed

lemma normalize_pages_Inl:
  "normalize_pages P i rs = Inl e \<Longrightarrow>
     \<exists>j < length rs. \<exists>ch \<in> set (chunks_of (rs ! j)). chunk_to_dict P ch (int (i + j) + 1) = Inl e"
proof (induction rs arbitrary: i)
  case Nil
  then show ?case by simp
next
  case (Cons r rs)
  show ?case
  proof (cases "normalize_all P (int i + 1) (chunks_of r)")
    case (Inl e')
    with Cons.prems have "e' = e" by simp
    with Inl normalize_all_Inl [of P "int i + 1" "chunks_of r" e]
    obtain ch where "ch \<in> set (chunks_of r)" "chunk_to_dict P ch (int i + 1) = Inl e" by auto
    then show ?thesis by (intro exI [of _ 0]) auto
  next
    case (Inr cs)
    with Cons.prems have "normalize_pages P (Suc i) rs = Inl e" by (auto split: sum.splits)
    from Cons.IH [OF this] obtain j ch where "j < length rs" "ch \<in> set (chunks_of (rs ! j))"
      "chunk_to_dict P ch (int (Suc i + j) + 1) = Inl e" by auto
    then show ?thesis by (intro exI [of _ "Suc j"]) auto
  qed
qed

lemma normalize_pages_total:
  "(\<forall>j < length rs. \<forall>ch \<in> set (chunks_of (rs ! j)). \<exists>c. chunk_to_dict P ch (int (i + j) + 1) = Inr c)
   \<Longrightarrow> \<exists>css. normalize_pages P i rs = Inr css"
proof (induction rs arbitrary: i)
  case Nil
  show ?case by simp
next
  case (Cons r rs)
  from Cons.prems [rule_format, of 0]
  have "\<forall>ch \<in> set (chunks_of r). \<exists>c. chunk_to_dict P ch (int i + 1) = Inr c" by simp
  from normalize_all_total [OF this] obtain cs where
    a: "normalize_all P (int i + 1) (chunks_of r) = Inr cs" ..
  have "\<forall>j < length rs. \<forall>ch \<in> set (chunks_of (rs ! j)).
          \<exists>c. chunk_to_dict P ch (int (Suc i + j) + 1) = Inr c"
    using Cons.prems [rule_format, of "Suc _"] by simp
  from Cons.IH [OF this] obtain css where "normalize_pages P (Suc i) rs = Inr css" ..
  with a show ?case by simp
qed

lemma normalize_all_pages: "normalize_all P n chs = Inr cs \<Longrightarrow> \<forall>c \<in> set cs. c_page c = n"
  by (auto simp: normalize_all_Inr list_all2_conv_all_nth in_set_conv_nth
      dest!: chunk_to_dict_page)

lemma normalize_pages_sorted:
  "normalize_pages P i rs = Inr css \<Longrightarrow>
     sorted (map c_page (concat css)) \<and> (\<forall>c \<in> set (concat css). int i + 1 \<le> c_page c)"
proof (induction rs arbitrary: i css)
  case Nil
  then show ?case by simp
next
  case (Cons r rs)
  from Cons.prems obtain cs css' where
    a: "normalize_all P (int i + 1) (chunks_of r) = Inr cs" and
    b: "normalize_pages P (Suc i) rs = Inr css'" and c: "css = cs # css'"
    by (auto split: sum.splits)
  from normalize_all_pages [OF a] have pa: "\<forall>c \<in> set cs. c_page c = int i + 1" .
  from Cons.IH [OF b] have s: "sorted (map c_page (concat css'))"
    and lb: "\<forall>c \<in> set (concat css'). int (Suc i) + 1 \<le> c_page c" by auto
  have "sorted (map c_page cs)" using pa by (induction cs) auto
  then have "sorted (map c_page (cs @ concat css'))"
    using s pa lb by (fastforce simp: sorted_append)
  moreover have "\<forall>c \<in> set (cs @ concat css'). int i + 1 \<le> c_page c"
    using pa lb by fastforce
  ultimately show ?case using c by simp
qed

lemma pages_nth:
  "i < length rs \<Longrightarrow>
     map (\<lambda>(j, r). page_meta_of j r) (zip [0..<length rs] rs) ! i = page_meta_of i (rs ! i)"
  by simp

lemma aggregate_returns_iff:
  "(\<exists>d. aggregate P rs = Inr d) \<longleftrightarrow>
     (\<forall>i < length rs. \<forall>ch \<in> set (chunks_of (rs ! i)). \<exists>c. chunk_to_dict P ch (int i + 1) = Inr c)"
proof
  assume "\<exists>d. aggregate P rs = Inr d"
  then obtain css where n: "normalize_pages P 0 rs = Inr css"
    by (auto simp: aggregate_eq split: sum.splits)
  show "\<forall>i < length rs. \<forall>ch \<in> set (chunks_of (rs ! i)). \<exists>c. chunk_to_dict P ch (int i + 1) = Inr c"
  proof (intro allI impI ballI)
    fix i ch assume i: "i < length rs" and ch: "ch \<in> set (chunks_of (rs ! i))"
    from normalize_pages_Inr [OF n] i
    have "normalize_all P (int i + 1) (chunks_of (rs ! i)) = Inr (css ! i)" by auto
    then have "list_all2 (\<lambda>ch c. chunk_to_dict P ch (int i + 1) = Inr c) (chunks_of (rs ! i)) (css ! i)"
      by (simp add: normalize_all_Inr)
    with ch show "\<exists>c. chunk_to_dict P ch (int i + 1) = Inr c"
      by (auto simp: list_all2_conv_all_nth in_set_conv_nth)
  qed
next
  assume "\<forall>i < length rs. \<forall>ch \<in> set (chunks_of (rs ! i)). \<exists>c. chunk_to_dict P ch (int i + 1) = Inr c"
  then have "\<exists>css. normalize_pages P 0 rs = Inr css"
    using normalize_pages_total [of rs P 0] by simp
  then show "\<exists>d. aggregate P rs = Inr d"
    by (auto simp: aggregate_eq)
qed

lemma normalize_pages_no_error:
  "normalize_pages P i (map (\<lambda>r. r\<lparr>pr_error := None\<rparr>) rs) = normalize_pages P i rs"
  by (induction rs arbitrary: i) (simp_all add: chunks_of_def split: sum.splits)

lemma page_meta_no_error:
  "map (\<lambda>(j, r). page_meta_of j r) (zip js (map (\<lambda>r. r\<lparr>pr_error := None\<rparr>) rs)) =
     map (\<lambda>m. m\<lparr>pm_error := None\<rparr>) (map (\<lambda>(j, r). page_meta_of j r) (zip js rs))"
  by (induction rs arbitrary: js) (auto simp: page_meta_of_def zip_Cons split: list.splits)

lemma normalize_sample:
  "normalize_pages milli_prims 0 sample_pages =
     Inr [[\<lparr>c_page = 1, c_type = PStr ''p'', c_bbox = PList [PFloat 1000, PFloat 2000, PFloat 3000, PFloat 4000], c_text = PStr ''one''\<rparr>,
           \<lparr>c_page = 1, c_type = PStr ''table'', c_bbox = PNone, c_text = PStr ''''\<rparr>],
          [],
          [\<lparr>c_page = 3, c_type = PStr ''unknown'', c_bbox = PNone, c_text = PStr ''three''\<rparr>]]"
  by (simp add: sample_pages_def chunks_of_def chunk_to_dict_def resolve_fields_def
      dict_get_def py_or_def as_list_def round_bbox_def milli_prims_def py_str_def)

section \<open>Properties of the normalizer\<close>

lemma py_float_Inl: "py_float P x = Inl e \<Longrightarrow> e = FloatError"
  by (cases x) (auto split: option.splits)

lemma py_float_cases: "py_float P x = Inl FloatError \<or> (\<exists>f. py_float P x = Inr f)"
  by (cases "py_float P x") (auto dest: py_float_Inl)

lemma round_floats_Inr:
  "round_floats P xs = Inr fs \<longleftrightarrow>
     list_all2 (\<lambda>x y. \<exists>f. py_float P x = Inr f \<and> y = PFloat (round2 P f)) xs fs"
proof (induction xs arbitrary: fs)
  case Nil
  show ?case by auto
next
  case (Cons x xs)
  show ?case
    by (cases fs) (auto simp: Cons.IH [symmetric] split: sum.splits)
qed

lemma round_floats_err: "round_floats P xs = Inl e \<Longrightarrow> e = FloatError"
  by (induction xs arbitrary: e) (auto split: sum.splits dest: py_float_Inl)

lemma round_floats_total:
  "(\<exists>fs. round_floats P xs = Inr fs) \<longleftrightarrow> (\<forall>x \<in> set xs. \<exists>f. py_float P x = Inr f)"
proof (induction xs)
  case Nil
  show ?case by simp
next
  case (Cons x xs)
  show ?case
  proof (cases "py_float P x")
    case (Inl e)
    then show ?thesis by auto
  next
    case (Inr f)
    then show ?thesis
      using Cons.IH by (cases "round_floats P xs") auto
  qed
qed

lemma round_floats_Inl:
  "round_floats P xs = Inl e \<longleftrightarrow> e = FloatError \<and> (\<exists>x \<in> set xs. py_float P x = Inl FloatError)"
proof (cases "round_floats P xs")
  case (Inl e')
  then have "\<not> (\<forall>x \<in> set xs. \<exists>f. py_float P x = Inr f)"
    using round_floats_total [of P xs] by simp
  then obtain x where "x \<in> set xs" "py_float P x = Inl FloatError"
    using py_float_cases [of P] by blast
  with Inl round_floats_err [OF Inl] show ?thesis by auto
next
  case (Inr fs)
  then have "\<forall>x \<in> set xs. \<exists>f. py_float P x = Inr f"
    using round_floats_total [of P xs] by blast
  with Inr show ?thesis by auto
qed

lemma as_list_shape: "as_list b = Inr b' \<Longrightarrow> b' = PNone \<or> (\<exists>xs. b' = PList xs)"
  by (cases b) (auto simp: as_list_def list_or_none_def split: if_splits sum.splits)

lemma as_list_idem: "as_list b = Inr b' \<Longrightarrow> as_list b' = Inr b'"
  using as_list_shape [of b b'] by (auto simp: as_list_def)

lemma py_or_text: "py_or P (PStr s) (PStr []) = PStr s"
  by (simp add: py_or_def)

lemma milli_simps:
  "float_of_int milli_prims n = Some (1000 * n)"
  "float_of_str milli_prims s = None"
  "float_nonzero milli_prims f = (f \<noteq> 0)"
  "round2 milli_prims f =
     (if f mod 10 < 5 then f - f mod 10
      else if 5 < f mod 10 then f - f mod 10 + 10
      else if even (f div 10) then f - 5 else f + 5)"
  by (simp_all add: milli_prims_def)

section \<open>The two shapes\<close>

lemma resolve_fields_dict:
  "resolve_fields P (PDict kvs) =
     Inr (first_truthy P [dict_get kvs ''bbox''] (dict_get kvs ''box''),
          first_truthy P [dict_get kvs ''text'', dict_get kvs ''content'', dict_get kvs ''markdown'']
            (PStr ''''),
          first_truthy P [dict_get kvs ''type'', dict_get kvs ''category''] (PStr ''unknown''))"
  by (simp add: resolve_fields_def first_truthy_def py_or_def)

lemma first_truthy_text:
  "py_or P (first_truthy P vs (PStr [])) (PStr []) = first_truthy P vs (PStr [])"
  by (auto simp: py_or_def first_truthy_def find_Some_iff split: option.splits)

lemma map_of_mapping:
  "map_of (map (\<lambda>(k, v). (PStr k, v)) flds) (PStr k) = map_of flds k"
  by (induction flds) auto

lemma dict_get_mapping:
  "dict_get (map (\<lambda>(k, v). (PStr k, v)) flds) k =
     (case map_of flds k of None \<Rightarrow> PNone | Some v \<Rightarrow> v)"
  by (simp add: dict_get_def map_of_mapping)

lemma absent_cases: "absent x \<Longrightarrow> x = None \<or> x = Some PNone"
  by (erule absent.elims) auto

lemma absent_or_text_cases:
  "absent_or_text x \<Longrightarrow> x = None \<or> x = Some PNone \<or> (\<exists>s. s \<noteq> [] \<and> x = Some (PStr s))"
  by (erule absent_or_text.elims) auto

lemma absent_or_truthy_cases:
  "absent_or_truthy P x \<Longrightarrow> x = None \<or> x = Some PNone \<or> (\<exists>v. v \<noteq> PNone \<and> py_truthy P v \<and> x = Some v)"
  by (erule absent_or_truthy.elims) auto

lemma text_agree:
  assumes "absent_or_text (map_of flds a)" "absent_or_text (map_of flds b)"
    "absent_or_text (map_of flds c)"
  shows "py_or P (py_or P (py_or P (dict_get (map (\<lambda>(k, v). (PStr k, v)) flds) a)
                                  (dict_get (map (\<lambda>(k, v). (PStr k, v)) flds) b))
                         (dict_get (map (\<lambda>(k, v). (PStr k, v)) flds) c)) (PStr d) =
         (case first_attr flds [a, b, c] of None \<Rightarrow> PStr d | Some val \<Rightarrow> PStr (py_str P val))"
  using absent_or_text_cases [OF assms(1)] absent_or_text_cases [OF assms(2)]
    absent_or_text_cases [OF assms(3)]
  by (auto simp: dict_get_mapping py_or_def py_str_def)

lemma kind_agree:
  assumes "absent_or_text (map_of flds a)" "absent_or_text (map_of flds b)"
    "absent (map_of flds c)"
  shows "py_or P (py_or P (dict_get (map (\<lambda>(k, v). (PStr k, v)) flds) a)
                         (dict_get (map (\<lambda>(k, v). (PStr k, v)) flds) b)) (PStr d) =
         (case first_attr flds [a, b, c] of None \<Rightarrow> PStr d | Some val \<Rightarrow> PStr (py_str P val))"
  using absent_or_text_cases [OF assms(1)] absent_or_text_cases [OF assms(2)]
    absent_cases [OF assms(3)]
  by (auto simp: dict_get_mapping py_or_def py_str_def)

lemma bbox_agree:
  assumes "absent_or_truthy P (map_of flds a)" "absent_or_truthy P (map_of flds b)"
    "absent (map_of flds c)"
  shows "(case first_attr flds [a, b, c] of
            None \<Rightarrow> Inr PNone
          | Some val \<Rightarrow> if is_list val then Inr val else list_or_none val) =
         as_list (py_or P (dict_get (map (\<lambda>(k, v). (PStr k, v)) flds) a)
                          (dict_get (map (\<lambda>(k, v). (PStr k, v)) flds) b))"
  using absent_or_truthy_cases [OF assms(1)] absent_or_truthy_cases [OF assms(2)]
    absent_cases [OF assms(3)]
  by (auto simp: dict_get_mapping py_or_def as_list_def)

section \<open>The claims\<close>

text \<open>
  C1 says that the normalizer never raises and that a bounding-box element that cannot be
  coerced to a float gives \<open>bbox\<close> absent. The source has no exception handler: for the
  chunk \<open>{"bbox": [1, 2, None, 4]}\<close> the call \<open>float(None)\<close> of line 82 raises and
  \<open>_chunk_to_dict\<close> returns nothing.
\<close>

theorem coercion_failure_raises:
  "chunk_to_dict milli_prims (PDict [(PStr ''bbox'', PList [PInt 1, PInt 2, PNone, PInt 4])]) 1 =
     Inl FloatError"
  by (simp add: chunk_to_dict_def resolve_fields_def dict_get_def py_or_def as_list_def
      round_bbox_def milli_prims_def)

text \<open>
  C1, amended. The normalizer returns a chunk exactly when nothing it calls raises: the
  resolved bounding box is absent or converts to a list, each of the first four elements
  of a box of at least four elements coerces to a float, and the resolved text can be
  sliced. When one of these four elements cannot be coerced, the call fails with the
  error of \<open>float\<close>; \<open>bbox\<close> is not set to \<open>None\<close>.
\<close>

theorem chunk_to_dict_returns_iff:
  "((\<exists>c. chunk_to_dict P chunk n = Inr c) \<longleftrightarrow>
      (\<exists>b0 t k b1. resolve_fields P chunk = Inr (b0, t, k) \<and> as_list b0 = Inr b1 \<and>
         (\<forall>xs. b1 = PList xs \<and> 4 \<le> length xs \<longrightarrow>
            (\<forall>x \<in> set (take 4 xs). \<exists>f. py_float P x = Inr f)) \<and>
         (\<exists>u. py_slice 500 (py_or P t (PStr '''')) = Inr u))) \<and>
   (\<forall>b0 t k xs. resolve_fields P chunk = Inr (b0, t, k) \<and> as_list b0 = Inr (PList xs) \<and>
      4 \<le> length xs \<and> (\<exists>x \<in> set (take 4 xs). py_float P x = Inl FloatError) \<longrightarrow>
      chunk_to_dict P chunk n = Inl FloatError)"
proof (intro conjI allI impI)
  show "(\<exists>c. chunk_to_dict P chunk n = Inr c) \<longleftrightarrow>
      (\<exists>b0 t k b1. resolve_fields P chunk = Inr (b0, t, k) \<and> as_list b0 = Inr b1 \<and>
         (\<forall>xs. b1 = PList xs \<and> 4 \<le> length xs \<longrightarrow>
            (\<forall>x \<in> set (take 4 xs). \<exists>f. py_float P x = Inr f)) \<and>
         (\<exists>u. py_slice 500 (py_or P t (PStr '''')) = Inr u))"
  proof (cases "resolve_fields P chunk")
    case (Inl e)
    then show ?thesis by (simp add: chunk_to_dict_def)
  next
    case (Inr r)
    obtain b0 t k where r: "r = (b0, t, k)" by (cases r)
    show ?thesis
    proof (cases "as_list b0")
      case (Inl e)
      then show ?thesis by (simp add: chunk_to_dict_def Inr r)
    next
      case b1: (Inr b1)
      have rb: "(\<exists>b. round_bbox P b1 = Inr b) \<longleftrightarrow>
                  (\<forall>xs. b1 = PList xs \<and> 4 \<le> length xs \<longrightarrow>
                     (\<forall>x \<in> set (take 4 xs). \<exists>f. py_float P x = Inr f))"
      proof (cases "\<exists>xs. b1 = PList xs \<and> 4 \<le> length xs")
        case True
        then obtain xs where xs: "b1 = PList xs" "4 \<le> length xs" by blast
        then have "xs \<noteq> []" by auto
        with xs have "(\<exists>b. round_bbox P b1 = Inr b) \<longleftrightarrow> (\<exists>fs. round_floats P (take 4 xs) = Inr fs)"
          by (cases "round_floats P (take 4 xs)") (auto simp: round_bbox_def)
        with xs show ?thesis by (simp add: round_floats_total)
      next
        case False
        then have "round_bbox P b1 = Inr b1"
          by (cases b1) (auto simp: round_bbox_def)
        with False show ?thesis by auto
      qed
      have "(\<exists>c. chunk_to_dict P chunk n = Inr c) \<longleftrightarrow>
              (\<exists>b. round_bbox P b1 = Inr b) \<and>
              (\<exists>u. py_slice 500 (py_or P t (PStr [])) = Inr u)"
        by (auto simp: chunk_to_dict_def Inr r b1 split: sum.splits)
      also have "\<dots> \<longleftrightarrow>
              (\<forall>xs. b1 = PList xs \<and> 4 \<le> length xs \<longrightarrow>
                 (\<forall>x \<in> set (take 4 xs). \<exists>f. py_float P x = Inr f)) \<and>
              (\<exists>u. py_slice 500 (py_or P t (PStr [])) = Inr u)"
        by (simp only: rb)
      finally show ?thesis by (simp add: Inr r b1)
    qed
  qed
next
  fix b0 t k xs
  assume a: "resolve_fields P chunk = Inr (b0, t, k) \<and> as_list b0 = Inr (PList xs) \<and>
      4 \<le> length xs \<and> (\<exists>x \<in> set (take 4 xs). py_float P x = Inl FloatError)"
  then have "round_floats P (take 4 xs) = Inl FloatError" by (simp add: round_floats_Inl)
  moreover from a have "xs \<noteq> []" by auto
  ultimately show "chunk_to_dict P chunk n = Inl FloatError"
    using a by (simp add: chunk_to_dict_def round_bbox_def)
qed

theorem chunk_to_dict_returns_iff_witness:
  "(\<exists>c. chunk_to_dict milli_prims
          (PDict [(PStr ''bbox'', PList [PInt 1, PInt 2, PInt 3, PInt 4]),
                  (PStr ''text'', PStr ''abc'')]) 1 = Inr c) \<and>
   chunk_to_dict milli_prims (PObj [(''box'', PTuple [PInt 1, PStr ''x'', PInt 3, PInt 4])]) 2 =
     Inl FloatError"
proof
  let ?good = "PDict [(PStr ''bbox'', PList [PInt 1, PInt 2, PInt 3, PInt 4]),
                      (PStr ''text'', PStr ''abc'')] :: int pyval"
  have g: "resolve_fields milli_prims ?good =
             Inr (PList [PInt 1, PInt 2, PInt 3, PInt 4], PStr ''abc'', PStr ''unknown'')"
    by (simp add: resolve_fields_def dict_get_def py_or_def)
  show "\<exists>c. chunk_to_dict milli_prims ?good 1 = Inr c"
    using chunk_to_dict_returns_iff [of milli_prims ?good 1, THEN conjunct1]
    by (simp add: g as_list_def py_or_def milli_simps)
next
  let ?bad = "PObj [(''box'', PTuple [PInt 1, PStr ''x'', PInt 3, PInt 4])] :: int pyval"
  have b: "resolve_fields milli_prims ?bad =
             Inr (PList [PInt 1, PStr ''x'', PInt 3, PInt 4], PStr '''', PStr ''unknown'')"
    by (simp add: resolve_fields_def list_or_none_def)
  show "chunk_to_dict milli_prims ?bad 2 = Inl FloatError"
    using chunk_to_dict_returns_iff [of milli_prims ?bad 2, THEN conjunct2, rule_format,
        of "PList [PInt 1, PStr ''x'', PInt 3, PInt 4]" "PStr ''''" "PStr ''unknown''"
           "[PInt 1, PStr ''x'', PInt 3, PInt 4]"]
    by (simp add: b as_list_def milli_simps)
qed

text \<open>
  C2. When the page loader yields no page, \<open>_run_ocr\<close> returns the dictionary of its first
  return statement: empty markdown, html, structure and pages, \<open>num_pages = 0\<close> and the error
  text. That dictionary has no key \<open>total_token_count\<close> (the claim says it is \<open>0\<close>); the
  return statement of the loop has the key.
\<close>

theorem run_ocr_no_pages:
  "run_ocr P (\<lambda>path config. []) generate file_path page_range =
     Inr \<lparr>doc_markdown = '''', doc_html = '''', doc_structure = [], doc_pages = [],
          doc_num_pages = 0, doc_total_token_count = None,
          doc_error = Some ''No pages could be loaded from the file''\<rparr>"
  by (simp add: run_ocr_def)

text \<open>
  C3. A bounding box of two elements is not discarded: the test of line 81 fails and the
  list is returned as it came, neither rounded nor replaced by \<open>None\<close>.
\<close>

theorem short_bbox_kept:
  "chunk_to_dict P (PDict [(PStr ''bbox'', PList [PInt 1, PInt 2])]) 1 =
     Inr \<lparr>c_page = 1, c_type = PStr ''unknown'', c_bbox = PList [PInt 1, PInt 2],
          c_text = PStr ''''\<rparr>"
  by (simp add: chunk_to_dict_def resolve_fields_def dict_get_def py_or_def as_list_def
      round_bbox_def)

text \<open>
  C4 says that in the mapping shape a key present with an empty or false value wins over
  the later keys. The \<open>or\<close> chains of lines 57 to 59 skip such a value: with
  \<open>text = ""\<close>, \<open>content = "body"\<close>, \<open>type = ""\<close> and \<open>category = "table"\<close> the chunk gets the
  text \<open>"body"\<close> and the type \<open>"table"\<close>, where the rule of the claim gives \<open>""\<close> twice.
\<close>

theorem falsy_value_skipped:
  "chunk_to_dict milli_prims
     (PDict [(PStr ''text'', PStr ''''), (PStr ''content'', PStr ''body''),
             (PStr ''type'', PStr ''''), (PStr ''category'', PStr ''table'')]) 1 =
     Inr \<lparr>c_page = 1, c_type = PStr ''table'', c_bbox = PNone, c_text = PStr ''body''\<rparr> \<and>
   spec_first_non_null [PStr '''', PStr ''table''] (PStr ''unknown'') = (PStr '''' :: int pyval) \<and>
   spec_first_non_null [PStr '''', PStr ''body'', PNone] (PStr '''') = (PStr '''' :: int pyval)"
  by (simp add: chunk_to_dict_def resolve_fields_def dict_get_def py_or_def as_list_def
      round_bbox_def spec_first_non_null_def)

text \<open>
  C4, amended. For a chunk in mapping shape each field is the first candidate value that
  is true: a key that is missing, null, or present with an empty or false value is skipped.
  The text falls back to \<open>""\<close>, the type to \<open>"unknown"\<close>, and the bounding box to whatever
  \<open>box\<close> holds. The returned chunk has this type, the first 500 elements of this text, and
  this box after lines 79 to 82.
\<close>

theorem mapping_fields_first_truthy:
  "resolve_fields P (PDict kvs) =
     Inr (first_truthy P [dict_get kvs ''bbox''] (dict_get kvs ''box''),
          first_truthy P [dict_get kvs ''text'', dict_get kvs ''content'', dict_get kvs ''markdown'']
            (PStr ''''),
          first_truthy P [dict_get kvs ''type'', dict_get kvs ''category''] (PStr ''unknown'')) \<and>
   (\<forall>c. chunk_to_dict P (PDict kvs) n = Inr c \<longrightarrow>
      c_type c = first_truthy P [dict_get kvs ''type'', dict_get kvs ''category'']
                   (PStr ''unknown'') \<and>
      py_slice 500 (first_truthy P [dict_get kvs ''text'', dict_get kvs ''content'',
                                    dict_get kvs ''markdown''] (PStr '''')) = Inr (c_text c) \<and>
      (\<exists>b1. as_list (first_truthy P [dict_get kvs ''bbox''] (dict_get kvs ''box'')) = Inr b1 \<and>
            round_bbox P b1 = Inr (c_bbox c)))"
  by (auto simp: chunk_to_dict_def resolve_fields_dict first_truthy_text split: sum.splits)

theorem mapping_fields_first_truthy_witness:
  "\<exists>c. chunk_to_dict milli_prims
         (PDict [(PStr ''type'', PInt 0), (PStr ''category'', PStr ''form''),
                 (PStr ''text'', PNone), (PStr ''markdown'', PStr ''# title''),
                 (PStr ''bbox'', PList []), (PStr ''box'', PList [PInt 1, PInt 2, PInt 3, PInt 4])])
         2 = Inr c \<and>
       c_type c = PStr ''form'' \<and> c_text c = PStr ''# title'' \<and>
       c_bbox c = PList [PFloat 1000, PFloat 2000, PFloat 3000, PFloat 4000]"
proof -
  let ?kvs = "[(PStr ''type'', PInt 0), (PStr ''category'', PStr ''form''),
               (PStr ''text'', PNone), (PStr ''markdown'', PStr ''# title''),
               (PStr ''bbox'', PList []), (PStr ''box'', PList [PInt 1, PInt 2, PInt 3, PInt 4])]
              :: (int pyval \<times> int pyval) list"
  obtain c where c: "chunk_to_dict milli_prims (PDict ?kvs) 2 = Inr c"
    by (simp add: chunk_to_dict_def resolve_fields_def dict_get_def py_or_def as_list_def
        round_bbox_def milli_simps)
  from mapping_fields_first_truthy [of milli_prims ?kvs 2, THEN conjunct2, rule_format, OF c]
  have "c_type c = PStr ''form''" "c_text c = PStr ''# title''"
    "c_bbox c = PList [PFloat 1000, PFloat 2000, PFloat 3000, PFloat 4000]"
    by (auto simp: first_truthy_def dict_get_def as_list_def round_bbox_def milli_simps)
  with c show ?thesis by blast
qed

text \<open>
  C5 says that the same content in the two shapes gives the same chunk. With
  \<open>text = ""\<close> and \<open>content = "abc"\<close> the mapping shape gives the text \<open>"abc"\<close> (the empty
  string is skipped) and the attribute shape gives \<open>""\<close> (it is not \<open>None\<close>).
\<close>

theorem shapes_disagree:
  "chunk_to_dict milli_prims
     (mapping_chunk [(''text'', PStr ''''), (''content'', PStr ''abc'')]) 1 \<noteq>
   chunk_to_dict milli_prims
     (object_chunk [(''text'', PStr ''''), (''content'', PStr ''abc'')]) 1"
  by (simp add: chunk_to_dict_def resolve_fields_def dict_get_def py_or_def as_list_def
      round_bbox_def mapping_chunk_def object_chunk_def py_str_def)

text \<open>
  C5, amended. The two shapes give the same outcome (the same chunk, or the same error)
  when every text and type candidate is missing, null or a non-empty string, \<open>bbox\<close> and \<open>box\<close>
  are missing, null or true values, and the names only the attribute shape looks at
  (\<open>bounding_box\<close>, \<open>kind\<close>) are missing or null.
\<close>

theorem shape_tolerance:
  assumes "\<forall>k \<in> set [''text'', ''content'', ''markdown'', ''type'', ''category''].
             absent_or_text (map_of flds k)"
    and "\<forall>k \<in> set [''bbox'', ''box'']. absent_or_truthy P (map_of flds k)"
    and "\<forall>k \<in> set [''bounding_box'', ''kind'']. absent (map_of flds k)"
  shows "chunk_to_dict P (mapping_chunk flds) n = chunk_to_dict P (object_chunk flds) n"
proof -
  let ?d = "map (\<lambda>(k, v). (PStr k, v)) flds"
  let ?b = "py_or P (dict_get ?d ''bbox'') (dict_get ?d ''box'')"
  let ?t = "py_or P (py_or P (py_or P (dict_get ?d ''text'') (dict_get ?d ''content''))
                           (dict_get ?d ''markdown'')) (PStr '''')"
  let ?k = "py_or P (py_or P (dict_get ?d ''type'') (dict_get ?d ''category''))
                   (PStr ''unknown'')"
  have m: "resolve_fields P (mapping_chunk flds) = Inr (?b, ?t, ?k)"
    by (simp add: resolve_fields_def mapping_chunk_def)
  have t: "(case first_attr flds [''text'', ''content'', ''markdown''] of
              None \<Rightarrow> PStr '''' | Some val \<Rightarrow> PStr (py_str P val)) = ?t"
    by (rule text_agree [symmetric]) (use assms(1) in simp_all)
  have k: "(case first_attr flds [''type'', ''category'', ''kind''] of
              None \<Rightarrow> PStr ''unknown'' | Some val \<Rightarrow> PStr (py_str P val)) = ?k"
    by (rule kind_agree [symmetric]) (use assms(1,3) in simp_all)
  have b: "(case first_attr flds [''bbox'', ''box'', ''bounding_box''] of
              None \<Rightarrow> Inr PNone
            | Some val \<Rightarrow> if is_list val then Inr val else list_or_none val) = as_list ?b"
    by (rule bbox_agree) (use assms(2,3) in simp_all)
  have o: "resolve_fields P (object_chunk flds) =
             (case as_list ?b of Inl e \<Rightarrow> Inl e | Inr bbox \<Rightarrow> Inr (bbox, ?t, ?k))"
    unfolding b [symmetric] t [symmetric] k [symmetric]
    by (simp del: first_attr.simps add: resolve_fields_def object_chunk_def Let_def
        split: option.splits)
  show ?thesis
  proof (cases "as_list ?b")
    case (Inl e)
    then show ?thesis by (simp add: chunk_to_dict_def m o)
  next
    case (Inr b1)
    with as_list_idem [OF Inr] show ?thesis by (simp add: chunk_to_dict_def m o)
  qed
qed

theorem shape_tolerance_witness:
  "chunk_to_dict milli_prims
     (mapping_chunk [(''content'', PStr ''abc''), (''text'', PNone), (''category'', PStr ''table''),
                     (''box'', PTuple [PInt 1, PInt 2, PInt 3, PInt 4])]) 2 =
   chunk_to_dict milli_prims
     (object_chunk [(''content'', PStr ''abc''), (''text'', PNone), (''category'', PStr ''table''),
                    (''box'', PTuple [PInt 1, PInt 2, PInt 3, PInt 4])]) 2 \<and>
   chunk_to_dict milli_prims
     (object_chunk [(''content'', PStr ''abc''), (''text'', PNone), (''category'', PStr ''table''),
                    (''box'', PTuple [PInt 1, PInt 2, PInt 3, PInt 4])]) 2 =
     Inr \<lparr>c_page = 2, c_type = PStr ''table'',
          c_bbox = PList [PFloat 1000, PFloat 2000, PFloat 3000, PFloat 4000],
          c_text = PStr ''abc''\<rparr>"
proof
  let ?f = "[(''content'', PStr ''abc''), (''text'', PNone), (''category'', PStr ''table''),
             (''box'', PTuple [PInt 1, PInt 2, PInt 3, PInt 4])] :: (string \<times> int pyval) list"
  show "chunk_to_dict milli_prims (mapping_chunk ?f) 2 = chunk_to_dict milli_prims (object_chunk ?f) 2"
    by (rule shape_tolerance) simp_all
  show "chunk_to_dict milli_prims (object_chunk ?f) 2 =
     Inr \<lparr>c_page = 2, c_type = PStr ''table'',
          c_bbox = PList [PFloat 1000, PFloat 2000, PFloat 3000, PFloat 4000],
          c_text = PStr ''abc''\<rparr>"
    by (simp add: chunk_to_dict_def resolve_fields_def py_or_def as_list_def list_or_none_def
        round_bbox_def object_chunk_def py_str_def milli_simps)
qed

text \<open>
  C6. In a non-empty sequence of page results where the result at index \<open>i\<close> carries an error
  (\<open>if result.error\<close> holds), the error changes nothing but the entry of that page: the
  result has \<open>num_pages = N\<close>, the markdown and html of all pages joined, the error text in
  \<open>pages[i]\<close>, no error key in the entry of a page without error, and no top-level error.
  The same input with every error removed gives the same document, up to the error keys
  of \<open>pages\<close>; and whether a result is returned depends on the chunks only.
\<close>

theorem page_error_isolated:
  assumes "rs \<noteq> []" and "i < length rs" and "nonempty (pr_error (rs ! i))"
  shows "((\<exists>d. aggregate P rs = Inr d) \<longleftrightarrow>
            (\<forall>j < length rs. \<forall>ch \<in> set (chunks_of (rs ! j)).
               \<exists>c. chunk_to_dict P ch (int j + 1) = Inr c)) \<and>
         (\<forall>d. aggregate P rs = Inr d \<longrightarrow>
            doc_num_pages d = int (length rs) \<and> length (doc_pages d) = length rs \<and>
            doc_markdown d = join [CHR 0x0A, CHR 0x0A] (map (\<lambda>r. or_empty (pr_markdown r)) rs) \<and>
            doc_html d = join [CHR 0x0A, CHR 0x0A] (map (\<lambda>r. or_empty (pr_html r)) rs) \<and>
            pm_error (doc_pages d ! i) = pr_error (rs ! i) \<and>
            (\<forall>j < length rs. \<not> nonempty (pr_error (rs ! j)) \<longrightarrow>
               pm_error (doc_pages d ! j) = None) \<and>
            doc_error d = None \<and>
            aggregate P (map (\<lambda>r. r\<lparr>pr_error := None\<rparr>) rs) =
              Inr (d\<lparr>doc_pages := map (\<lambda>m. m\<lparr>pm_error := None\<rparr>) (doc_pages d)\<rparr>))"
proof (intro conjI allI impI)
  show "(\<exists>d. aggregate P rs = Inr d) \<longleftrightarrow>
          (\<forall>j < length rs. \<forall>ch \<in> set (chunks_of (rs ! j)).
             \<exists>c. chunk_to_dict P ch (int j + 1) = Inr c)"
    by (rule aggregate_returns_iff)
next
  fix d assume d: "aggregate P rs = Inr d"
  then obtain css where n: "normalize_pages P 0 rs = Inr css"
    by (auto simp: aggregate_eq split: sum.splits)
  from d n have
    pages: "doc_pages d = map (\<lambda>(j, r). page_meta_of j r) (zip [0..<length rs] rs)" and
    num: "doc_num_pages d = int (length rs)" and
    md: "doc_markdown d = join [CHR 0x0A, CHR 0x0A] (map (\<lambda>r. or_empty (pr_markdown r)) rs)" and
    ht: "doc_html d = join [CHR 0x0A, CHR 0x0A] (map (\<lambda>r. or_empty (pr_html r)) rs)" and
    er: "doc_error d = None"
    by (auto simp: aggregate_eq)
  show "doc_num_pages d = int (length rs)" by (rule num)
  show "length (doc_pages d) = length rs" by (simp add: pages)
  show "doc_markdown d = join [CHR 0x0A, CHR 0x0A] (map (\<lambda>r. or_empty (pr_markdown r)) rs)"
    by (rule md)
  show "doc_html d = join [CHR 0x0A, CHR 0x0A] (map (\<lambda>r. or_empty (pr_html r)) rs)"
    by (rule ht)
  show "pm_error (doc_pages d ! i) = pr_error (rs ! i)"
    using assms(2,3) by (simp add: pages page_meta_of_def)
  show "doc_error d = None" by (rule er)
  show "aggregate P (map (\<lambda>r. r\<lparr>pr_error := None\<rparr>) rs) =
          Inr (d\<lparr>doc_pages := map (\<lambda>m. m\<lparr>pm_error := None\<rparr>) (doc_pages d)\<rparr>)"
    using d n
    by (auto simp: aggregate_eq normalize_pages_no_error page_meta_no_error o_def)
next
  fix d j assume d: "aggregate P rs = Inr d" and j: "j < length rs"
    and e: "\<not> nonempty (pr_error (rs ! j))"
  from d have
    pages: "doc_pages d = map (\<lambda>(j, r). page_meta_of j r) (zip [0..<length rs] rs)"
    by (auto simp: aggregate_eq split: sum.splits)
  show "pm_error (doc_pages d ! j) = None"
    using j e by (simp add: pages page_meta_of_def)
qed

theorem page_error_isolated_witness:
  "\<exists>d. aggregate milli_prims sample_pages = Inr d \<and> doc_num_pages d = 3 \<and>
       doc_markdown d = ''one'' @ [CHR 0x0A, CHR 0x0A, CHR 0x0A, CHR 0x0A] @ ''three'' \<and>
       map pm_error (doc_pages d) = [None, Some ''timeout'', None] \<and> doc_error d = None"
proof -
  have ne: "sample_pages \<noteq> []" by (simp add: sample_pages_def)
  have len: "length sample_pages = 3" by (simp add: sample_pages_def)
  have i: "(1::nat) < length sample_pages" by (simp add: sample_pages_def)
  have e: "nonempty (pr_error (sample_pages ! 1))" by (simp add: sample_pages_def)
  have e1: "pr_error (sample_pages ! Suc 0) = Some ''timeout''" by (simp add: sample_pages_def)
  have e0: "\<not> nonempty (pr_error (sample_pages ! 0))" by (simp add: sample_pages_def)
  have e2: "\<not> nonempty (pr_error (sample_pages ! 2))" by (simp add: sample_pages_def)
  have md: "map (\<lambda>r. or_empty (pr_markdown r)) sample_pages = [''one'', [], ''three'']"
    by (simp add: sample_pages_def)
  obtain d where d: "aggregate milli_prims sample_pages = Inr d"
    by (simp add: aggregate_eq normalize_sample)
  from page_error_isolated [OF ne i e, of milli_prims] d
  have a: "doc_num_pages d = 3"
    "doc_markdown d = ''one'' @ [CHR 0x0A, CHR 0x0A, CHR 0x0A, CHR 0x0A] @ ''three''"
    "doc_error d = None"
    and b: "length (doc_pages d) = 3" "pm_error (doc_pages d ! Suc 0) = Some ''timeout''"
    "pm_error (doc_pages d ! 0) = None" "pm_error (doc_pages d ! Suc (Suc 0)) = None"
    using e0 e2 by (simp_all add: len md e1 numeral_2_eq_2)
  from b have "map pm_error (doc_pages d) = [None, Some ''timeout'', None]"
    by (simp add: list_eq_iff_nth_eq less_Suc_eq numeral_3_eq_3)
  with a d show ?thesis by simp
qed

text \<open>
  C7. For a non-empty sequence of \<open>N\<close> page results, the result of the aggregation has
  \<open>num_pages = N\<close>, \<open>N\<close> entries in \<open>pages\<close>, and \<open>page_num = i + 1\<close> in the entry at index
  \<open>i\<close>. The aggregation returns a result exactly when the normalizer raises on no chunk.
\<close>

theorem page_count_invariant:
  assumes "rs \<noteq> []"
  shows "((\<exists>d. aggregate P rs = Inr d) \<longleftrightarrow>
            (\<forall>i < length rs. \<forall>ch \<in> set (chunks_of (rs ! i)).
               \<exists>c. chunk_to_dict P ch (int i + 1) = Inr c)) \<and>
         (\<forall>d. aggregate P rs = Inr d \<longrightarrow>
            doc_num_pages d = int (length rs) \<and> length (doc_pages d) = length rs \<and>
            (\<forall>i < length rs. pm_page_num (doc_pages d ! i) = int i + 1))"
proof (intro conjI allI impI)
  show "(\<exists>d. aggregate P rs = Inr d) \<longleftrightarrow>
          (\<forall>i < length rs. \<forall>ch \<in> set (chunks_of (rs ! i)).
             \<exists>c. chunk_to_dict P ch (int i + 1) = Inr c)"
    by (rule aggregate_returns_iff)
next
  fix d assume d: "aggregate P rs = Inr d"
  then have
    pages: "doc_pages d = map (\<lambda>(j, r). page_meta_of j r) (zip [0..<length rs] rs)" and
    num: "doc_num_pages d = int (length rs)"
    by (auto simp: aggregate_eq split: sum.splits)
  show "doc_num_pages d = int (length rs)" by (rule num)
  show "length (doc_pages d) = length rs" by (simp add: pages)
  fix i assume "i < length rs"
  then show "pm_page_num (doc_pages d ! i) = int i + 1"
    by (simp add: pages page_meta_of_def)
qed

theorem page_count_invariant_witness:
  "\<exists>d. aggregate milli_prims sample_pages = Inr d \<and> doc_num_pages d = 3 \<and>
       length (doc_pages d) = 3 \<and> map pm_page_num (doc_pages d) = [1, 2, 3]"
proof -
  have ne: "sample_pages \<noteq> []" by (simp add: sample_pages_def)
  have len: "length sample_pages = 3" by (simp add: sample_pages_def)
  obtain d where d: "aggregate milli_prims sample_pages = Inr d"
    by (simp add: aggregate_eq normalize_sample)
  from page_count_invariant [OF ne, of milli_prims] d
  have "doc_num_pages d = 3" "length (doc_pages d) = 3"
    "\<forall>i < 3. pm_page_num (doc_pages d ! i) = int i + 1"
    by (simp_all add: len)
  moreover from this have "map pm_page_num (doc_pages d) = [1, 2, 3]"
    by (simp add: list_eq_iff_nth_eq less_Suc_eq numeral_3_eq_3)
  ultimately show ?thesis using d by simp
qed

text \<open>
  C8. For a non-empty sequence of page results, the structure list of the result is the
  concatenation, in page order, of one list per page; the list of page \<open>i + 1\<close> holds the
  normalized chunks of that page in their order, each tagged with \<open>i + 1\<close>; so the page tags
  are non-decreasing along the whole list.
\<close>

theorem structure_order:
  assumes "rs \<noteq> []"
  shows "((\<exists>d. aggregate P rs = Inr d) \<longleftrightarrow>
            (\<forall>i < length rs. \<forall>ch \<in> set (chunks_of (rs ! i)).
               \<exists>c. chunk_to_dict P ch (int i + 1) = Inr c)) \<and>
         (\<forall>d. aggregate P rs = Inr d \<longrightarrow>
            sorted (map c_page (doc_structure d)) \<and>
            (\<exists>css. doc_structure d = concat css \<and> length css = length rs \<and>
               (\<forall>i < length rs.
                  list_all2 (\<lambda>ch c. chunk_to_dict P ch (int i + 1) = Inr c \<and> c_page c = int i + 1)
                    (chunks_of (rs ! i)) (css ! i))))"
proof (intro conjI allI impI)
  show "(\<exists>d. aggregate P rs = Inr d) \<longleftrightarrow>
          (\<forall>i < length rs. \<forall>ch \<in> set (chunks_of (rs ! i)).
             \<exists>c. chunk_to_dict P ch (int i + 1) = Inr c)"
    by (rule aggregate_returns_iff)
next
  fix d assume d: "aggregate P rs = Inr d"
  then obtain css where n: "normalize_pages P 0 rs = Inr css"
    by (auto simp: aggregate_eq split: sum.splits)
  from d n have st: "doc_structure d = concat css" by (auto simp: aggregate_eq)
  from normalize_pages_sorted [OF n] show "sorted (map c_page (doc_structure d))"
    by (simp add: st)
  from normalize_pages_Inr [OF n] have len: "length css = length rs" and
    each: "\<And>i. i < length rs \<Longrightarrow>
             normalize_all P (int i + 1) (chunks_of (rs ! i)) = Inr (css ! i)"
    by auto
  have "\<forall>i < length rs.
          list_all2 (\<lambda>ch c. chunk_to_dict P ch (int i + 1) = Inr c \<and> c_page c = int i + 1)
            (chunks_of (rs ! i)) (css ! i)"
  proof (intro allI impI)
    fix i assume "i < length rs"
    from each [OF this]
    have "list_all2 (\<lambda>ch c. chunk_to_dict P ch (int i + 1) = Inr c) (chunks_of (rs ! i)) (css ! i)"
      by (simp add: normalize_all_Inr)
    then show "list_all2 (\<lambda>ch c. chunk_to_dict P ch (int i + 1) = Inr c \<and> c_page c = int i + 1)
                 (chunks_of (rs ! i)) (css ! i)"
      by (rule list_all2_mono) (auto dest: chunk_to_dict_page)
  qed
  with st len
  show "\<exists>css. doc_structure d = concat css \<and> length css = length rs \<and>
          (\<forall>i < length rs.
             list_all2 (\<lambda>ch c. chunk_to_dict P ch (int i + 1) = Inr c \<and> c_page c = int i + 1)
               (chunks_of (rs ! i)) (css ! i))"
    by blast
qed

theorem structure_order_witness:
  "\<exists>d. aggregate milli_prims sample_pages = Inr d \<and> map c_page (doc_structure d) = [1, 1, 3] \<and>
       sorted (map c_page (doc_structure d))"
proof -
  have ne: "sample_pages \<noteq> []" by (simp add: sample_pages_def)
  obtain d where d: "aggregate milli_prims sample_pages = Inr d"
    by (simp add: aggregate_eq normalize_sample)
  from structure_order [OF ne, of milli_prims] d
  have "sorted (map c_page (doc_structure d))" by simp
  moreover from d have "map c_page (doc_structure d) = [1, 1, 3]"
    by (auto simp: aggregate_eq normalize_sample)
  ultimately show ?thesis using d by simp
qed

text \<open>
  C9. When the resolved bounding box, as a list, has at least four elements, only its first
  four are looked at (the slice is taken first): a chunk is returned exactly when these
  four coerce to floats (and the text can be sliced), and then \<open>bbox\<close> is the list of
  exactly four values \<open>round(float(x), 2)\<close>, in order. An element after the fourth is never
  coerced.
\<close>

theorem bbox_first_four_rounded:
  assumes "resolve_fields P chunk = Inr (b0, t, k)" and "as_list b0 = Inr (PList xs)"
    and "4 \<le> length xs"
  shows "((\<exists>c. chunk_to_dict P chunk n = Inr c) \<longleftrightarrow>
            (\<forall>x \<in> set (take 4 xs). \<exists>f. py_float P x = Inr f) \<and>
            (\<exists>u. py_slice 500 (py_or P t (PStr '''')) = Inr u)) \<and>
         (\<forall>c. chunk_to_dict P chunk n = Inr c \<longrightarrow>
            (\<exists>fs. c_bbox c = PList fs \<and> length fs = 4 \<and>
               list_all2 (\<lambda>x y. \<exists>f. py_float P x = Inr f \<and> y = PFloat (round2 P f))
                 (take 4 xs) fs))"
proof -
  from assms(3) have ne: "xs \<noteq> []" by auto
  have rb: "round_bbox P (PList xs) =
              (case round_floats P (take 4 xs) of Inl e \<Rightarrow> Inl e | Inr fs \<Rightarrow> Inr (PList fs))"
    using assms(3) ne by (simp add: round_bbox_def)
  show ?thesis
  proof (intro conjI allI impI)
    show "(\<exists>c. chunk_to_dict P chunk n = Inr c) \<longleftrightarrow>
            (\<forall>x \<in> set (take 4 xs). \<exists>f. py_float P x = Inr f) \<and>
            (\<exists>u. py_slice 500 (py_or P t (PStr '''')) = Inr u)"
      unfolding round_floats_total [symmetric]
      by (auto simp: chunk_to_dict_def assms(1,2) rb split: sum.splits)
  next
    fix c assume "chunk_to_dict P chunk n = Inr c"
    then obtain fs where fs: "round_floats P (take 4 xs) = Inr fs" and c: "c_bbox c = PList fs"
      by (auto simp: chunk_to_dict_def assms(1,2) rb split: sum.splits)
    from fs have l: "list_all2 (\<lambda>x y. \<exists>f. py_float P x = Inr f \<and> y = PFloat (round2 P f))
                       (take 4 xs) fs"
      by (simp add: round_floats_Inr)
    then have "length fs = 4" using assms(3) by (auto dest: list_all2_lengthD)
    with l c show "\<exists>fs. c_bbox c = PList fs \<and> length fs = 4 \<and>
               list_all2 (\<lambda>x y. \<exists>f. py_float P x = Inr f \<and> y = PFloat (round2 P f))
                 (take 4 xs) fs"
      by blast
  qed
qed

theorem bbox_first_four_rounded_witness:
  "\<exists>c. chunk_to_dict milli_prims
         (PObj [(''bbox'', PTuple [PFloat 1005, PFloat 2004, PFloat 3100, PFloat 4999,
                                   PStr ''x''])]) 3 = Inr c \<and>
       c_bbox c = PList [PFloat 1000, PFloat 2000, PFloat 3100, PFloat 5000]"
proof -
  let ?xs = "[PFloat 1005, PFloat 2004, PFloat 3100, PFloat 4999, PStr ''x''] :: int pyval list"
  let ?ch = "PObj [(''bbox'', PTuple ?xs)]"
  have r: "resolve_fields milli_prims ?ch = Inr (PList ?xs, PStr '''', PStr ''unknown'')"
    by (simp add: resolve_fields_def list_or_none_def)
  have a: "as_list (PList ?xs) = Inr (PList ?xs)" by (simp add: as_list_def)
  have l: "4 \<le> length ?xs" by simp
  note t = bbox_first_four_rounded [OF r a l, of 3]
  from t [THEN conjunct1] obtain c where c: "chunk_to_dict milli_prims ?ch 3 = Inr c"
    by (auto simp: py_or_def)
  with t [THEN conjunct2] have "c_bbox c = PList [PFloat 1000, PFloat 2000, PFloat 3100, PFloat 5000]"
    by (auto simp: list_all2_Cons1 milli_simps)
  with c show ?thesis by blast
qed

text \<open>
  C10. When the resolved text is the string \<open>s\<close>, the text of the normalized chunk is the
  first 500 characters of \<open>s\<close>: a prefix of \<open>s\<close>, of length exactly 500 when \<open>s\<close> is longer,
  and \<open>s\<close> itself otherwise. Whether a chunk is returned depends on the bounding box only.
\<close>

theorem text_truncated:
  assumes "resolve_fields P chunk = Inr (b0, PStr s, k)"
  shows "((\<exists>c. chunk_to_dict P chunk n = Inr c) \<longleftrightarrow>
            (\<exists>b1 b. as_list b0 = Inr b1 \<and> round_bbox P b1 = Inr b)) \<and>
         (\<forall>c. chunk_to_dict P chunk n = Inr c \<longrightarrow>
            c_text c = PStr (take 500 s) \<and> prefix (take 500 s) s \<and>
            (500 < length s \<longrightarrow> length (take 500 s) = 500) \<and>
            (length s \<le> 500 \<longrightarrow> c_text c = PStr s))"
  by (auto simp: chunk_to_dict_def assms py_or_text take_is_prefix split: sum.splits)

theorem text_truncated_witness:
  "\<exists>c. chunk_to_dict milli_prims (PDict [(PStr ''text'', PStr (replicate 600 CHR ''a''))]) 1 = Inr c \<and>
       c_text c = PStr (replicate 500 CHR ''a'')"
proof -
  let ?ch = "PDict [(PStr ''text'', PStr (replicate 600 CHR ''a''))] :: int pyval"
  have r: "resolve_fields milli_prims ?ch = Inr (PNone, PStr (replicate 600 CHR ''a''), PStr ''unknown'')"
    by (simp add: resolve_fields_def dict_get_def py_or_def)
  note t = text_truncated [OF r, of 1]
  from t [THEN conjunct1] obtain c where c: "chunk_to_dict milli_prims ?ch 1 = Inr c"
    by (auto simp: as_list_def round_bbox_def)
  with t [THEN conjunct2] have "c_text c = PStr (replicate 500 CHR ''a'')"
    by simp
  with c show ?thesis by blast
qed

end
